theory Spec2Isabelle
  imports Complex_Main
begin

section \<open>Outcomes of a call\<close>

text \<open>
  The functions of \<^verbatim>\<open>amp_criteria.hpp\<close> and \<^verbatim>\<open>interpolation.hpp\<close> are templates over
  the number type. The model instantiates the number type with an exact field (the reals
  for \<^verbatim>\<open>RealType\<close>, any field for \<^verbatim>\<open>CT\<close>), so rounding is not part of it. What has no
  value in a field, or no defined behaviour in the program, is an outcome of its own:
  a failed \<^verbatim>\<open>assert\<close>, an index outside a container, a sum of two vectors of different
  dimensions, and, in the interpolation, the division of a vector by a zero scalar (in
  IEEE and MPFR arithmetic the quotient is an infinity or a NaN and no trap is taken; the
  model records that the division happened). The criteria divide one real by a count:
  there the quotient by zero is kept as the special value the arithmetic gives it.
\<close>

datatype error = AssertionFailed string | IndexOutOfBounds | DimensionMismatch | DivisionByZero

definition bind_err :: "error + 'a \<Rightarrow> ('a \<Rightarrow> error + 'b) \<Rightarrow> error + 'b" where
  "bind_err m f = (case m of Inl e \<Rightarrow> Inl e | Inr x \<Rightarrow> f x)"

section \<open>Adaptive multiple precision criteria (amp\_criteria.hpp)\<close>

text \<open>
  Modelled from the spec: the struct \<^verbatim>\<open>config::AdaptiveMultiplePrecisionConfig\<close> is declared
  in \<^verbatim>\<open>tracking_config.hpp\<close>, which is not among the sources. The record has the five fields
  the criteria read, with the types the spec gives them.
\<close>

record AdaptiveMultiplePrecisionConfig =
  safety_digits_1 :: int
  safety_digits_2 :: int
  epsilon :: real
  Phi :: real
  Psi :: real

text \<open>
  \<^verbatim>\<open>log10\<close> of the C++ library, on the reals. For a positive argument it is the decimal
  logarithm; for an argument that is not positive the program gets an infinity or a NaN,
  which the reals do not have, and the model has the value HOL gives \<^term>\<open>log 10 x\<close> there.
\<close>

definition log10 :: "real \<Rightarrow> real" where
  "log10 x = log 10 x"

text \<open>
  The values of \<^verbatim>\<open>RealType\<close> that a quotient can take: a real, or one of the special
  values that IEEE and MPFR arithmetic give a division by zero. No trap is taken and the
  computation goes on with the special value.
\<close>

datatype xreal = Finite real | PosInf | NegInf | NaN

text \<open>
  The quotient of a real by an \<^verbatim>\<open>unsigned\<close>, as in \<^verbatim>\<open>x / (num_newton_iterations_remaining)\<close>:
  the count is converted to \<^verbatim>\<open>RealType\<close>, and a zero count gives an infinity with the
  sign of the dividend, or NaN for \<open>0 / 0\<close>.
\<close>

definition div_unsigned :: "real \<Rightarrow> nat \<Rightarrow> xreal" where
  "div_unsigned x n =
     (if n \<noteq> 0 then Finite (x / real n)
      else if 0 < x then PosInf else if x < 0 then NegInf else NaN)"

text \<open>The sum of a real and a quotient: an infinity and NaN absorb the real.\<close>

definition add_xreal :: "real \<Rightarrow> xreal \<Rightarrow> xreal" where
  "add_xreal a q =
     (case q of Finite r \<Rightarrow> Finite (a + r) | PosInf \<Rightarrow> PosInf | NegInf \<Rightarrow> NegInf | NaN \<Rightarrow> NaN)"

text \<open>
  The comparison \<^verbatim>\<open>d > q\<close>: nothing exceeds \<open>+\<infinity>\<close>, everything exceeds \<open>-\<infinity>\<close>, and a
  comparison with NaN is false.
\<close>

definition greater_xreal :: "real \<Rightarrow> xreal \<Rightarrow> bool" where
  "greater_xreal d q =
     (case q of Finite r \<Rightarrow> d > r | PosInf \<Rightarrow> False | NegInf \<Rightarrow> True | NaN \<Rightarrow> False)"

text \<open>
  \<^verbatim>\<open>z.norm()\<close> of Eigen: the Euclidean norm of a complex vector.
\<close>

definition norm_vec :: "complex list \<Rightarrow> real" where
  "norm_vec z = sqrt (sum_list (map (\<lambda>c. (cmod c)\<^sup>2) z))"

text \<open>
  \<^verbatim>\<open>NumTraits<RealType>::NumDigits()\<close>, the digit count of the working precision, is
  not among the sources either; every criterion takes it as its first argument.
\<close>

definition CriterionA :: "nat \<Rightarrow> real \<Rightarrow> real \<Rightarrow> AdaptiveMultiplePrecisionConfig \<Rightarrow> bool" where
  "CriterionA NumDigits norm_J norm_J_inverse AMP_config =
     (real NumDigits > real_of_int (safety_digits_1 AMP_config)
        + log10 (norm_J_inverse * epsilon AMP_config * (norm_J + Phi AMP_config)))"

definition D :: "real \<Rightarrow> real \<Rightarrow> AdaptiveMultiplePrecisionConfig \<Rightarrow> real" where
  "D norm_J norm_J_inverse AMP_config =
     log10 (norm_J_inverse * ((2 + epsilon AMP_config) * norm_J
              + epsilon AMP_config * Phi AMP_config) + 1)"

definition CriterionBRHS ::
  "real \<Rightarrow> real \<Rightarrow> nat \<Rightarrow> real \<Rightarrow> real \<Rightarrow> AdaptiveMultiplePrecisionConfig \<Rightarrow> xreal" where
  "CriterionBRHS norm_J norm_J_inverse num_newton_iterations_remaining tracking_tolerance
       norm_of_latest_newton_residual AMP_config =
     add_xreal (real_of_int (safety_digits_1 AMP_config) + D norm_J norm_J_inverse AMP_config)
       (div_unsigned (- log10 tracking_tolerance + log10 norm_of_latest_newton_residual)
          num_newton_iterations_remaining)"

definition CriterionB ::
  "nat \<Rightarrow> real \<Rightarrow> real \<Rightarrow> nat \<Rightarrow> real \<Rightarrow> real \<Rightarrow> AdaptiveMultiplePrecisionConfig \<Rightarrow> bool" where
  "CriterionB NumDigits norm_J norm_J_inverse num_newton_iterations_remaining tracking_tolerance
       norm_of_latest_newton_residual AMP_config =
     greater_xreal (real NumDigits)
       (CriterionBRHS norm_J norm_J_inverse num_newton_iterations_remaining
          tracking_tolerance norm_of_latest_newton_residual AMP_config)"

text \<open>The overload of \<^verbatim>\<open>CriterionCRHS\<close> that takes the norm of the point.\<close>

definition CriterionCRHS_norm :: "real \<Rightarrow> real \<Rightarrow> real \<Rightarrow> AdaptiveMultiplePrecisionConfig \<Rightarrow> real" where
  "CriterionCRHS_norm norm_J_inverse norm_z tracking_tolerance AMP_config =
     real_of_int (safety_digits_2 AMP_config) + - log10 tracking_tolerance
       + log10 (norm_J_inverse * Psi AMP_config + norm_z)"

text \<open>The overload of \<^verbatim>\<open>CriterionCRHS\<close> that takes the point itself.\<close>

definition CriterionCRHS :: "real \<Rightarrow> complex list \<Rightarrow> real \<Rightarrow> AdaptiveMultiplePrecisionConfig \<Rightarrow> real" where
  "CriterionCRHS norm_J_inverse z tracking_tolerance AMP_config =
     CriterionCRHS_norm norm_J_inverse (norm_vec z) tracking_tolerance AMP_config"

definition CriterionC :: "nat \<Rightarrow> real \<Rightarrow> complex list \<Rightarrow> real \<Rightarrow> AdaptiveMultiplePrecisionConfig \<Rightarrow> bool" where
  "CriterionC NumDigits norm_J_inverse z tracking_tolerance AMP_config =
     (real NumDigits > CriterionCRHS norm_J_inverse z tracking_tolerance AMP_config)"

section \<open>Hermite interpolation (interpolation.hpp)\<close>

subsection \<open>Containers and machine integers\<close>

text \<open>
  \<^verbatim>\<open>unsigned int\<close> is 32 bits wide. An index expression of the source is written over the
  integers and reduced modulo \<open>2^32\<close>, which is what the unsigned arithmetic computes.
\<close>

definition u32 :: "int \<Rightarrow> nat" where
  "u32 x = nat (x mod 4294967296)"

text \<open>
  \<^verbatim>\<open>Vec<CT>\<close> is a list of scalars. Sum, difference and the product with a scalar act on
  each coordinate. Eigen requires both operands of a sum or a difference to have one
  dimension (it asserts so, and reads past the shorter operand when assertions are off).
\<close>

type_synonym 'a Vec = "'a list"

definition vadd :: "'a::field Vec \<Rightarrow> 'a Vec \<Rightarrow> error + 'a Vec" where
  "vadd a b = (if length a = length b then Inr (map2 (+) a b) else Inl DimensionMismatch)"

definition vsub :: "'a::field Vec \<Rightarrow> 'a Vec \<Rightarrow> error + 'a Vec" where
  "vsub a b = (if length a = length b then Inr (map2 (-) a b) else Inl DimensionMismatch)"

definition vscale :: "'a::field Vec \<Rightarrow> 'a \<Rightarrow> 'a Vec" where
  "vscale a c = map (\<lambda>x. x * c) a"

definition vdiv :: "'a::field Vec \<Rightarrow> 'a \<Rightarrow> error + 'a Vec" where
  "vdiv a c = (if c = 0 then Inl DivisionByZero else Inr (map (\<lambda>x. x / c) a))"

text \<open>
  \<^verbatim>\<open>Vec<CT> v(n)\<close>: a vector of \<open>n\<close> coefficients. Eigen leaves them unset; the model
  holds \<open>0\<close> until the first write. \<^verbatim>\<open>v(i)\<close> reads or writes coefficient \<open>i\<close>.
\<close>

definition new_Vec :: "nat \<Rightarrow> 'a::field Vec" where
  "new_Vec n = replicate n 0"

definition vec_get :: "'a Vec \<Rightarrow> nat \<Rightarrow> error + 'a" where
  "vec_get v i = (if i < length v then Inr (v ! i) else Inl IndexOutOfBounds)"

definition vec_set :: "'a Vec \<Rightarrow> nat \<Rightarrow> 'a \<Rightarrow> error + 'a Vec" where
  "vec_set v i x = (if i < length v then Inr (v[i := x]) else Inl IndexOutOfBounds)"

text \<open>
  \<^verbatim>\<open>Mat<Vec<CT>> M(r, c)\<close>: a dense matrix whose coefficients are vectors, each one empty
  until it is assigned. \<^verbatim>\<open>M(i, j)\<close> reads or writes coefficient \<open>(i, j)\<close>.
\<close>

record 'a Mat =
  rows :: nat
  cols :: nat
  coeff :: "nat \<Rightarrow> nat \<Rightarrow> 'a Vec"

definition new_Mat :: "nat \<Rightarrow> nat \<Rightarrow> 'a Mat" where
  "new_Mat r c = \<lparr>rows = r, cols = c, coeff = (\<lambda>i j. [])\<rparr>"

definition mat_get :: "'a Mat \<Rightarrow> nat \<Rightarrow> nat \<Rightarrow> error + 'a Vec" where
  "mat_get M i j = (if i < rows M \<and> j < cols M then Inr (coeff M i j) else Inl IndexOutOfBounds)"

definition mat_set :: "'a Mat \<Rightarrow> nat \<Rightarrow> nat \<Rightarrow> 'a Vec \<Rightarrow> error + 'a Mat" where
  "mat_set M i j v =
     (if i < rows M \<and> j < cols M
      then Inr (M\<lparr>coeff := (coeff M)(i := (coeff M i)(j := v))\<rparr>)
      else Inl IndexOutOfBounds)"

text \<open>
  \<^verbatim>\<open>TimeCont<CT>\<close> and \<^verbatim>\<open>SampCont<CT>\<close> are deques, the most recent entry last;
  \<^verbatim>\<open>d[i]\<close> is defined for \<open>i\<close> below the size only.
\<close>

definition deque_at :: "'a list \<Rightarrow> nat \<Rightarrow> error + 'a" where
  "deque_at d i = (if i < length d then Inr (d ! i) else Inl IndexOutOfBounds)"

subsection \<open>Loops\<close>

text \<open>
  \<^verbatim>\<open>for (unsigned k = i; k < n; ++k) body\<close>. The counter stays below \<open>n\<close>, itself an
  \<^verbatim>\<open>unsigned\<close>, so the increment never wraps. A failing body ends the loop.
\<close>

function for_upto :: "nat \<Rightarrow> nat \<Rightarrow> (nat \<Rightarrow> 's \<Rightarrow> error + 's) \<Rightarrow> 's \<Rightarrow> error + 's" where
  "for_upto i n body s =
     (if i < n then (case body i s of Inl e \<Rightarrow> Inl e | Inr s' \<Rightarrow> for_upto (Suc i) n body s')
      else Inr s)"
  by pat_completeness auto
termination
  by (relation "measure (\<lambda>(i, n, body, s). n - i)") auto

text \<open>\<^verbatim>\<open>for (unsigned k = i; k >= 1; --k) body\<close>.\<close>

fun for_downto1 :: "nat \<Rightarrow> (nat \<Rightarrow> 's \<Rightarrow> error + 's) \<Rightarrow> 's \<Rightarrow> error + 's" where
  "for_downto1 0 body s = Inr s"
| "for_downto1 (Suc k) body s =
     (case body (Suc k) s of Inl e \<Rightarrow> Inl e | Inr s' \<Rightarrow> for_downto1 k body s')"

subsection \<open>HermiteInterpolateAndSolve\<close>

text \<open>
  The body of the first loop: both rows of sample \<open>ii\<close>, counted from the most recent one,
  are seeded with its position, the second row with its derivative, and its time fills
  two slots of \<^verbatim>\<open>time_differences\<close>. The subtraction \<^verbatim>\<open>num_provided_samples-1-ii\<close> is
  in \<^verbatim>\<open>size_t\<close>; the loop runs for \<open>ii\<close> below \<^verbatim>\<open>num_sample_points\<close> only, which the
  assertions bound by the sizes, so it does not wrap.
\<close>

definition seed_body ::
  "'a::field list \<Rightarrow> 'a Vec list \<Rightarrow> 'a Vec list \<Rightarrow> nat \<Rightarrow> 'a Mat \<times> 'a Vec \<Rightarrow> error + 'a Mat \<times> 'a Vec" where
  "seed_body times' samples derivatives ii st =
     (case st of (space_differences, time_differences) \<Rightarrow>
      bind_err (deque_at samples (length samples - 1 - ii)) (\<lambda>s0.
      bind_err (mat_set space_differences (u32 (2 * int ii)) 0 s0) (\<lambda>F1.
      bind_err (deque_at samples (length samples - 1 - ii)) (\<lambda>s1.
      bind_err (mat_set F1 (u32 (2 * int ii + 1)) 0 s1) (\<lambda>F2.
      bind_err (deque_at derivatives (length derivatives - 1 - ii)) (\<lambda>d.
      bind_err (mat_set F2 (u32 (2 * int ii + 1)) 1 d) (\<lambda>F3.
      bind_err (deque_at times' (length times' - 1 - ii)) (\<lambda>t0.
      bind_err (vec_set time_differences (u32 (2 * int ii)) t0) (\<lambda>z1.
      bind_err (deque_at times' (length times' - 1 - ii)) (\<lambda>t1.
      bind_err (vec_set z1 (u32 (2 * int ii + 1)) t1) (\<lambda>z2.
      Inr (F3, z2))))))))))))"

text \<open>The body of the second loop: the first divided difference between two samples.\<close>

definition first_round_body :: "'a::field Vec \<Rightarrow> nat \<Rightarrow> 'a Mat \<Rightarrow> error + 'a Mat" where
  "first_round_body time_differences ii space_differences =
     bind_err (mat_get space_differences (u32 (2 * int ii)) 0) (\<lambda>a.
     bind_err (mat_get space_differences (u32 (2 * int ii - 1)) 0) (\<lambda>b.
     bind_err (vsub a b) (\<lambda>diff.
     bind_err (vec_get time_differences (u32 (2 * int ii))) (\<lambda>ta.
     bind_err (vec_get time_differences (u32 (2 * int ii - 1))) (\<lambda>tb.
     bind_err (vdiv diff (ta - tb)) (\<lambda>q.
     mat_set space_differences (u32 (2 * int ii)) 1 q))))))"

text \<open>The body of the inner loop of the third nest: one entry of the table.\<close>

definition fill_body :: "'a::field Vec \<Rightarrow> nat \<Rightarrow> nat \<Rightarrow> 'a Mat \<Rightarrow> error + 'a Mat" where
  "fill_body time_differences ii jj space_differences =
     bind_err (mat_get space_differences ii (u32 (int jj - 1))) (\<lambda>a.
     bind_err (mat_get space_differences (u32 (int ii - 1)) (u32 (int jj - 1))) (\<lambda>b.
     bind_err (vsub a b) (\<lambda>diff.
     bind_err (vec_get time_differences ii) (\<lambda>ta.
     bind_err (vec_get time_differences (u32 (int ii - int jj))) (\<lambda>tb.
     bind_err (vdiv diff (ta - tb)) (\<lambda>q.
     mat_set space_differences ii jj q))))))"

text \<open>
  The third nest. The inner loop runs while \<^verbatim>\<open>jj <= ii\<close>, that is for \<open>jj\<close> below
  \<open>ii + 1\<close>.
\<close>

definition fill_row :: "'a::field Vec \<Rightarrow> nat \<Rightarrow> 'a Mat \<Rightarrow> error + 'a Mat" where
  "fill_row time_differences ii space_differences =
     for_upto 2 (Suc ii) (fill_body time_differences ii) space_differences"

text \<open>The body of the last loop: two steps of the nested evaluation.\<close>

definition horner_body :: "'a::field \<Rightarrow> 'a Mat \<Rightarrow> 'a Vec \<Rightarrow> nat \<Rightarrow> 'a Vec \<Rightarrow> error + 'a Vec" where
  "horner_body target_time space_differences time_differences ii Result =
     bind_err (vec_get time_differences ii) (\<lambda>ta.
     bind_err (mat_get space_differences (u32 (2 * int ii)) (u32 (2 * int ii))) (\<lambda>fa.
     bind_err (vadd (vscale Result (target_time - ta)) fa) (\<lambda>inner.
     bind_err (vec_get time_differences (u32 (int ii - 1))) (\<lambda>tb.
     bind_err (mat_get space_differences (u32 (2 * int ii - 1)) (u32 (2 * int ii - 1))) (\<lambda>fb.
     vadd (vscale inner (target_time - tb)) fb)))))"

definition HermiteInterpolateAndSolve ::
  "'a::field \<Rightarrow> nat \<Rightarrow> 'a list \<Rightarrow> 'a Vec list \<Rightarrow> 'a Vec list \<Rightarrow> error + 'a Vec" where
  "HermiteInterpolateAndSolve target_time num_sample_points times' samples derivatives =
     (if \<not> length times' \<ge> num_sample_points
        then Inl (AssertionFailed ''must have sufficient number of sample times'')
      else if \<not> length samples \<ge> num_sample_points
        then Inl (AssertionFailed ''must have sufficient number of sample points'')
      else if \<not> length derivatives \<ge> num_sample_points
        then Inl (AssertionFailed ''must have sufficient number of derivatives'')
      else
        bind_err (for_upto 0 num_sample_points (seed_body times' samples derivatives)
                    (new_Mat (u32 (2 * int num_sample_points)) (u32 (2 * int num_sample_points)),
                     new_Vec (u32 (2 * int num_sample_points)))) (\<lambda>(F0, time_differences).
        bind_err (for_upto 1 num_sample_points (first_round_body time_differences) F0) (\<lambda>F1.
        bind_err (for_upto 2 (u32 (2 * int num_sample_points)) (fill_row time_differences) F1)
          (\<lambda>space_differences.
        bind_err (mat_get space_differences (u32 (2 * int num_sample_points - 1))
                    (u32 (2 * int num_sample_points - 1))) (\<lambda>Result0.
        bind_err (for_downto1 (u32 (int num_sample_points - 1))
                    (horner_body target_time space_differences time_differences) Result0) (\<lambda>Result.
        bind_err (vec_get time_differences 0) (\<lambda>t0.
        bind_err (mat_get space_differences 0 0) (\<lambda>f0.
        vadd (vscale Result (target_time - t0)) f0))))))))"

section \<open>Evaluation rules\<close>

declare for_upto.simps [simp del]

lemma for_upto_step:
  "i < n \<Longrightarrow> for_upto i n body s =
     (case body i s of Inl e \<Rightarrow> Inl e | Inr s' \<Rightarrow> for_upto (Suc i) n body s')"
  by (simp add: for_upto.simps)

lemma for_upto_stop: "\<not> i < n \<Longrightarrow> for_upto i n body s = Inr s"
  by (simp add: for_upto.simps)

lemma bind_err_simps: "bind_err (Inl e) f = Inl e" "bind_err (Inr x) f = f x"
  by (simp_all add: bind_err_def)

lemma for_downto1_numeral:
  "for_downto1 (numeral k) body s =
     (case body (numeral k) s of Inl e \<Rightarrow> Inl e | Inr s' \<Rightarrow> for_downto1 (pred_numeral k) body s')"
  by (simp add: numeral_eq_Suc)

lemmas eval_defs =
  HermiteInterpolateAndSolve_def seed_body_def first_round_body_def fill_row_def fill_body_def
  horner_body_def u32_def new_Mat_def new_Vec_def mat_get_def mat_set_def vec_get_def vec_set_def
  deque_at_def vadd_def vsub_def vscale_def vdiv_def bind_err_simps for_upto_step for_upto_stop
  for_downto1_numeral

lemma u32_id: "0 \<le> x \<Longrightarrow> x < 4294967296 \<Longrightarrow> u32 x = nat x"
  by (simp add: u32_def)

section \<open>The precision criteria\<close>

lemma norm_vec_nonneg: "0 \<le> norm_vec z"
  by (auto simp: norm_vec_def intro!: sum_list_nonneg)

lemma log10_mono: "0 < x \<Longrightarrow> x \<le> y \<Longrightarrow> log10 x \<le> log10 y"
  by (simp add: log10_def log_mono)

lemma D_mono:
  assumes "0 < norm_J" "norm_J \<le> norm_J'" "0 < norm_J_inverse" "norm_J_inverse \<le> norm_J_inverse'"
    "0 < epsilon cfg" "0 < Phi cfg"
  shows "D norm_J norm_J_inverse cfg \<le> D norm_J' norm_J_inverse' cfg"
proof -
  have "(2 + epsilon cfg) * norm_J \<le> (2 + epsilon cfg) * norm_J'"
    using assms by (intro mult_left_mono) auto
  then have "norm_J_inverse * ((2 + epsilon cfg) * norm_J + epsilon cfg * Phi cfg)
      \<le> norm_J_inverse' * ((2 + epsilon cfg) * norm_J' + epsilon cfg * Phi cfg)"
    using assms by (intro mult_mono) auto
  moreover have "0 < norm_J_inverse * ((2 + epsilon cfg) * norm_J + epsilon cfg * Phi cfg)"
    using assms by (intro mult_pos_pos add_pos_pos) auto
  ultimately show ?thesis
    unfolding D_def by (intro log10_mono) auto
qed

lemma CriterionA_antitone:
  assumes "0 < norm_J" "norm_J \<le> norm_J'" "0 < norm_J_inverse" "norm_J_inverse \<le> norm_J_inverse'"
    "0 < epsilon cfg" "0 < Phi cfg"
    and "CriterionA NumDigits norm_J' norm_J_inverse' cfg"
  shows "CriterionA NumDigits norm_J norm_J_inverse cfg"
proof -
  have "norm_J_inverse * epsilon cfg * (norm_J + Phi cfg)
      \<le> norm_J_inverse' * epsilon cfg * (norm_J' + Phi cfg)"
    using assms by (intro mult_mono) auto
  moreover have "0 < norm_J_inverse * epsilon cfg * (norm_J + Phi cfg)"
    using assms by simp
  ultimately have "log10 (norm_J_inverse * epsilon cfg * (norm_J + Phi cfg))
      \<le> log10 (norm_J_inverse' * epsilon cfg * (norm_J' + Phi cfg))"
    by (rule log10_mono[rotated])
  with assms(7) show ?thesis by (simp add: CriterionA_def)
qed

lemma greater_xreal_antitone:
  assumes "a \<le> a'" "x \<le> x'" "greater_xreal d (add_xreal a' (div_unsigned x' n))"
  shows "greater_xreal d (add_xreal a (div_unsigned x n))"
proof (cases "n = 0")
  case True
  with assms show ?thesis
    by (auto simp: greater_xreal_def add_xreal_def div_unsigned_def split: if_splits)
next
  case False
  then have "x / real n \<le> x' / real n"
    using assms(2) by (intro divide_right_mono) auto
  with assms(1,3) False show ?thesis
    by (simp add: greater_xreal_def add_xreal_def div_unsigned_def)
qed

lemma CriterionB_antitone:
  assumes "0 < norm_J" "norm_J \<le> norm_J'" "0 < norm_J_inverse" "norm_J_inverse \<le> norm_J_inverse'"
    "0 < epsilon cfg" "0 < Phi cfg" "0 < tol'" "tol' \<le> tol"
    and "CriterionB NumDigits norm_J' norm_J_inverse' n tol' res cfg"
  shows "CriterionB NumDigits norm_J norm_J_inverse n tol res cfg"
proof -
  have "log10 tol' \<le> log10 tol" using assms by (intro log10_mono) auto
  then have x: "- log10 tol + log10 res \<le> - log10 tol' + log10 res" by simp
  have a: "real_of_int (safety_digits_1 cfg) + D norm_J norm_J_inverse cfg
      \<le> real_of_int (safety_digits_1 cfg) + D norm_J' norm_J_inverse' cfg"
    using D_mono[OF assms(1-6)] by simp
  show ?thesis
    using greater_xreal_antitone[OF a x] assms(9)
    by (simp add: CriterionB_def CriterionBRHS_def)
qed

lemma CriterionC_antitone:
  assumes "0 < norm_J_inverse" "norm_J_inverse \<le> norm_J_inverse'"
    "0 < Psi cfg" "0 < tol'" "tol' \<le> tol"
    and "CriterionC NumDigits norm_J_inverse' z tol' cfg"
  shows "CriterionC NumDigits norm_J_inverse z tol cfg"
proof -
  have "log10 tol' \<le> log10 tol" using assms by (intro log10_mono) auto
  moreover have "norm_J_inverse * Psi cfg \<le> norm_J_inverse' * Psi cfg"
    using assms by (intro mult_right_mono) auto
  then have "log10 (norm_J_inverse * Psi cfg + norm_vec z)
      \<le> log10 (norm_J_inverse' * Psi cfg + norm_vec z)"
    using assms norm_vec_nonneg[of z] by (intro log10_mono add_pos_nonneg mult_pos_pos) auto
  ultimately show ?thesis using assms(6)
    by (simp add: CriterionC_def CriterionCRHS_def CriterionCRHS_norm_def)
qed

text \<open>
  C2. Criterion A holds exactly when the digit count of the working precision exceeds
  \<open>safety_digits_1 + log10 (\<parallel>J\<^sup>-\<^sup>1\<parallel> \<cdot> epsilon \<cdot> (\<parallel>J\<parallel> + Phi))\<close>, for every pair of norms and
  every configuration.
\<close>

theorem CriterionA_iff:
  "CriterionA NumDigits norm_J norm_J_inverse cfg \<longleftrightarrow>
     real NumDigits > real_of_int (safety_digits_1 cfg)
        + log 10 (norm_J_inverse * epsilon cfg * (norm_J + Phi cfg))"
  by (simp add: CriterionA_def log10_def)



text \<open>
  C4. Criterion C holds exactly when the digit count exceeds
  \<open>safety_digits_2 - log10 tolerance + log10 (\<parallel>J\<^sup>-\<^sup>1\<parallel> \<cdot> Psi + \<parallel>z\<parallel>)\<close>, where \<open>\<parallel>z\<parallel>\<close> is the
  Euclidean norm of the current point.
\<close>

theorem CriterionC_iff:
  "CriterionC NumDigits norm_J_inverse z tol cfg \<longleftrightarrow>
     real NumDigits > real_of_int (safety_digits_2 cfg) - log 10 tol
        + log 10 (norm_J_inverse * Psi cfg + sqrt (\<Sum>c\<leftarrow>z. (cmod c)\<^sup>2))"
  by (simp add: CriterionC_def CriterionCRHS_def CriterionCRHS_norm_def norm_vec_def log10_def)

text \<open>
  C5. With the digit count fixed and positive norms and constants, none of the three
  criteria turns from false to true when \<open>\<parallel>J\<parallel>\<close> or \<open>\<parallel>J\<^sup>-\<^sup>1\<parallel>\<close> grows or the tracking
  tolerance shrinks: a criterion that holds at the larger norms and the smaller tolerance
  holds at the smaller norms and the larger tolerance.
\<close>

theorem criteria_antitone:
  assumes "0 < norm_J" "norm_J \<le> norm_J'" "0 < norm_J_inverse" "norm_J_inverse \<le> norm_J_inverse'"
    "0 < tol'" "tol' \<le> tol" "0 < epsilon cfg" "0 < Phi cfg" "0 < Psi cfg"
  shows "(CriterionA NumDigits norm_J' norm_J_inverse' cfg
            \<longrightarrow> CriterionA NumDigits norm_J norm_J_inverse cfg)
       \<and> (CriterionB NumDigits norm_J' norm_J_inverse' n tol' res cfg
            \<longrightarrow> CriterionB NumDigits norm_J norm_J_inverse n tol res cfg)
       \<and> (CriterionC NumDigits norm_J_inverse' z tol' cfg
            \<longrightarrow> CriterionC NumDigits norm_J_inverse z tol cfg)"
proof (intro conjI impI)
  assume "CriterionA NumDigits norm_J' norm_J_inverse' cfg"
  with assms show "CriterionA NumDigits norm_J norm_J_inverse cfg"
    by (intro CriterionA_antitone[of norm_J norm_J' norm_J_inverse norm_J_inverse']) auto
next
  assume "CriterionB NumDigits norm_J' norm_J_inverse' n tol' res cfg"
  with assms show "CriterionB NumDigits norm_J norm_J_inverse n tol res cfg"
    by (intro CriterionB_antitone[of norm_J norm_J' norm_J_inverse norm_J_inverse' cfg tol' tol]) auto
next
  assume "CriterionC NumDigits norm_J_inverse' z tol' cfg"
  with assms show "CriterionC NumDigits norm_J_inverse z tol cfg"
    by (intro CriterionC_antitone[of norm_J_inverse norm_J_inverse' cfg tol' tol]) auto
qed

theorem criteria_antitone_witness:
  "CriterionA 16 2 2 \<lparr>safety_digits_1 = 1, safety_digits_2 = 1, epsilon = 1/8, Phi = 2, Psi = 9/2\<rparr>
   \<and> CriterionA 16 1 1 \<lparr>safety_digits_1 = 1, safety_digits_2 = 1, epsilon = 1/8, Phi = 2, Psi = 9/2\<rparr>
   \<and> CriterionB 16 2 2 1 1 1
        \<lparr>safety_digits_1 = 1, safety_digits_2 = 1, epsilon = 1/8, Phi = 2, Psi = 9/2\<rparr>
   \<and> CriterionB 16 1 1 1 2 1
        \<lparr>safety_digits_1 = 1, safety_digits_2 = 1, epsilon = 1/8, Phi = 2, Psi = 9/2\<rparr>
   \<and> CriterionC 16 2 [1] 1 \<lparr>safety_digits_1 = 1, safety_digits_2 = 1, epsilon = 1/8, Phi = 2, Psi = 9/2\<rparr>
   \<and> CriterionC 16 1 [1] 2 \<lparr>safety_digits_1 = 1, safety_digits_2 = 1, epsilon = 1/8, Phi = 2, Psi = 9/2\<rparr>"
proof -
  let ?cfg = "\<lparr>safety_digits_1 = 1, safety_digits_2 = 1, epsilon = 1/8, Phi = 2, Psi = 9/2\<rparr>"
  have a: "CriterionA 16 2 2 ?cfg"
    by (simp add: CriterionA_def log10_def)
  have b: "CriterionB 16 2 2 1 1 1 ?cfg"
    by (simp add: CriterionB_def CriterionBRHS_def D_def div_unsigned_def add_xreal_def
        greater_xreal_def log10_def)
  have c: "CriterionC 16 2 [1] 1 ?cfg"
    by (simp add: CriterionC_def CriterionCRHS_def CriterionCRHS_norm_def norm_vec_def log10_def)
  show ?thesis
    using criteria_antitone [of 1 2 1 2 1 2 ?cfg 16 1 1 "[1]"] a b c by simp
qed



section \<open>Hermite interpolation\<close>

subsection \<open>Rules for the loops\<close>

text \<open>
  An invariant \<open>I\<close> carried through the iterations, and a property \<open>E\<close> of the error of
  a failing iteration, describe the outcome of the loop.
\<close>

lemma for_upto_rule:
  assumes "I i s" and "i \<le> n"
    and "\<And>k s. i \<le> k \<Longrightarrow> k < n \<Longrightarrow> I k s \<Longrightarrow>
           (case body k s of Inl e \<Rightarrow> E e | Inr s' \<Rightarrow> I (Suc k) s')"
  shows "case for_upto i n body s of Inl e \<Rightarrow> E e | Inr s' \<Rightarrow> I n s'"
  using assms
proof (induction "n - i" arbitrary: i s)
  case 0
  then show ?case by (simp add: for_upto_stop)
next
  case (Suc d)
  then have lt: "i < n" by simp
  show ?case
  proof (cases "body i s")
    case (Inl e)
    with Suc.prems(3)[of i s] Suc.prems(1) lt show ?thesis
      by (simp add: for_upto_step)
  next
    case (Inr s')
    with Suc.prems(3)[of i s] Suc.prems(1) lt have I': "I (Suc i) s'" by simp
    have "case for_upto (Suc i) n body s' of Inl e \<Rightarrow> E e | Inr s'' \<Rightarrow> I n s''"
    proof (rule Suc.hyps(1))
      show "d = n - Suc i" using Suc.hyps(2) by simp
      show "I (Suc i) s'" by (rule I')
      show "Suc i \<le> n" using lt by simp
      show "\<And>k s. Suc i \<le> k \<Longrightarrow> k < n \<Longrightarrow> I k s \<Longrightarrow>
              (case body k s of Inl e \<Rightarrow> E e | Inr s' \<Rightarrow> I (Suc k) s')"
        using Suc.prems(3) by simp
    qed
    with Inr lt show ?thesis by (simp add: for_upto_step)
  qed
qed

lemma for_downto1_rule:
  assumes "I s" and "\<And>k s. 1 \<le> k \<Longrightarrow> k \<le> m \<Longrightarrow> I s \<Longrightarrow> \<exists>s'. body k s = Inr s' \<and> I s'"
  shows "\<exists>s'. for_downto1 m body s = Inr s' \<and> I s'"
  using assms
proof (induction m arbitrary: s)
  case 0
  then show ?case by simp
next
  case (Suc m)
  from Suc.prems(2)[of "Suc m" s] Suc.prems(1)
  obtain s' where s': "body (Suc m) s = Inr s'" "I s'" by auto
  have "\<exists>s''. for_downto1 m body s' = Inr s'' \<and> I s''"
  proof (rule Suc.IH)
    show "I s'" by (rule s'(2))
    show "\<And>k s. 1 \<le> k \<Longrightarrow> k \<le> m \<Longrightarrow> I s \<Longrightarrow> \<exists>s'. body k s = Inr s' \<and> I s'"
      using Suc.prems(2) by simp
  qed
  with s' show ?case by simp
qed

text \<open>The positions and derivatives of the window, most recent first.\<close>

lemma recent_nth:
  assumes "n \<le> length xs" "k < n"
  shows "xs ! (length xs - 1 - k) = take n (rev xs) ! k" "length xs - 1 - k < length xs"
  using assms by (simp_all add: rev_nth)

lemma recent_length:
  assumes "n \<le> length xs" "k < n" "\<forall>v\<in>set (take n (rev xs)). length v = N"
  shows "length (xs ! (length xs - 1 - k)) = N"
proof -
  have "take n (rev xs) ! k \<in> set (take n (rev xs))"
    using assms(1,2) by (intro nth_mem) simp
  then show ?thesis using assms recent_nth(1)[OF assms(1,2)] by simp
qed

lemma seed_step:
  assumes "n < 2147483648" "n \<le> length times'" "n \<le> length samples" "n \<le> length derivatives"
    and dimS: "\<forall>v\<in>set (take n (rev samples)). length v = N"
    and dimD: "\<forall>v\<in>set (take n (rev derivatives)). length v = N"
    and k: "k < n" and F: "rows F = 2 * n" "cols F = 2 * n" and z: "length z = 2 * n"
    and zk: "\<forall>i<2 * k. z ! i = rev times' ! (i div 2)"
    and Fk: "\<forall>i<2 * k. length (coeff F i 0) = N \<and> (odd i \<longrightarrow> length (coeff F i 1) = N)"
  shows "\<exists>F' z'. seed_body times' samples derivatives k (F, z) = Inr (F', z') \<and>
      rows F' = 2 * n \<and> cols F' = 2 * n \<and> length z' = 2 * n \<and>
      (\<forall>i<2 * Suc k. z' ! i = rev times' ! (i div 2)) \<and>
      (\<forall>i<2 * Suc k. length (coeff F' i 0) = N \<and> (odd i \<longrightarrow> length (coeff F' i 1) = N))"
proof -
  have u: "u32 (2 * int k) = 2 * k" "u32 (2 * int k + 1) = 2 * k + 1"
    using assms(1) k by (simp_all add: u32_id nat_add_distrib nat_mult_distrib)
  have t: "rev times' ! k = times' ! (length times' - 1 - k)"
    using assms(2) k by (simp add: rev_nth)
  define s where "s = samples ! (length samples - 1 - k)"
  define d where "d = derivatives ! (length derivatives - 1 - k)"
  have len: "length s = N" "length d = N"
    unfolding s_def d_def
    using recent_length[OF assms(3) k dimS] recent_length[OF assms(4) k dimD] by simp_all
  have split: "i < 2 * k \<or> i = 2 * k \<or> i = 2 * k + 1" if "i < 2 * Suc k" for i
    using that by arith
  have zz: "(z[2 * k := rev times' ! k, 2 * k + 1 := rev times' ! k]) ! i = rev times' ! (i div 2)"
    if i: "i < 2 * Suc k" for i
    using split[OF i] zk z k by (auto simp: nth_list_update)
  let ?F' = "F\<lparr>coeff := (coeff F)(2 * k := (coeff F (2 * k))(0 := s),
                 2 * k + 1 := (coeff F (2 * k + 1))(0 := s, 1 := d))\<rparr>"
  have FF: "length (coeff ?F' i 0) = N \<and> (odd i \<longrightarrow> length (coeff ?F' i 1) = N)"
    if i: "i < 2 * Suc k" for i
    using split[OF i] Fk len by auto
  have b: "length times' - Suc k < length times'" "length samples - Suc k < length samples"
    "length derivatives - Suc k < length derivatives"
    using assms(2-4) k by arith+
  have "seed_body times' samples derivatives k (F, z) =
      Inr (?F', z[2 * k := rev times' ! k, 2 * k + 1 := rev times' ! k])"
    using k F z b
    by (simp add: seed_body_def u t s_def d_def deque_at_def mat_set_def vec_set_def bind_err_simps
        fun_upd_twist)
  with zz FF F z show ?thesis by simp
qed


lemma seed_loop:
  assumes "n < 2147483648" "n \<le> length times'" "n \<le> length samples" "n \<le> length derivatives"
    and dimS: "\<forall>v\<in>set (take n (rev samples)). length v = N"
    and dimD: "\<forall>v\<in>set (take n (rev derivatives)). length v = N"
  shows "\<exists>F z. for_upto 0 n (seed_body times' samples derivatives)
            (new_Mat (u32 (2 * int n)) (u32 (2 * int n)), new_Vec (u32 (2 * int n))) = Inr (F, z) \<and>
      rows F = 2 * n \<and> cols F = 2 * n \<and> length z = 2 * n \<and>
      (\<forall>i<2 * n. z ! i = rev times' ! (i div 2)) \<and>
      (\<forall>i<2 * n. length (coeff F i 0) = N \<and> (odd i \<longrightarrow> length (coeff F i 1) = N))"
proof -
  let ?I = "\<lambda>k (st :: 'a Mat \<times> 'a list).
      rows (fst st) = 2 * n \<and> cols (fst st) = 2 * n \<and> length (snd st) = 2 * n \<and>
      (\<forall>i<2 * k. snd st ! i = rev times' ! (i div 2)) \<and>
      (\<forall>i<2 * k. length (coeff (fst st) i 0) = N \<and> (odd i \<longrightarrow> length (coeff (fst st) i 1) = N))"
  let ?s = "(new_Mat (u32 (2 * int n)) (u32 (2 * int n)), new_Vec (u32 (2 * int n)))
              :: 'a Mat \<times> 'a list"
  have u: "u32 (2 * int n) = 2 * n"
    using assms(1) by (simp add: u32_id nat_mult_distrib)
  have "case for_upto 0 n (seed_body times' samples derivatives) ?s of
          Inl e \<Rightarrow> False | Inr s' \<Rightarrow> ?I n s'"
  proof (rule for_upto_rule[where I = ?I])
    show "?I 0 ?s" by (simp add: u new_Mat_def new_Vec_def)
    show "0 \<le> n" by simp
    fix k and s :: "'a Mat \<times> 'a list"
    assume "0 \<le> k" "k < n" "?I k s"
    with seed_step[OF assms(1-4) dimS dimD, of k "fst s" "snd s"]
    show "case seed_body times' samples derivatives k s of
            Inl e \<Rightarrow> False | Inr s' \<Rightarrow> ?I (Suc k) s'"
      by auto
  qed
  then show ?thesis by (auto split: sum.splits)
qed

lemma first_round_step:
  assumes "n < 2147483648" "1 \<le> k" "k < n" "rows F = 2 * n" "cols F = 2 * n" "length z = 2 * n"
    and col0: "\<forall>i<2 * n. length (coeff F i 0) = N"
  shows "case first_round_body z k F of
           Inl e \<Rightarrow> e = DivisionByZero \<and> z ! (2 * k) = z ! (2 * k - 1)
         | Inr F' \<Rightarrow> rows F' = 2 * n \<and> cols F' = 2 * n \<and> z ! (2 * k) \<noteq> z ! (2 * k - 1) \<and>
             length (coeff F' (2 * k) 1) = N \<and>
             (\<forall>i j. (i, j) \<noteq> (2 * k, 1) \<longrightarrow> coeff F' i j = coeff F i j)"
proof -
  have u: "u32 (2 * int k) = 2 * k" "u32 (2 * int k - 1) = 2 * k - 1"
    using assms(1-3) by (simp_all add: u32_id nat_diff_distrib nat_mult_distrib)
  have b: "2 * k < 2 * n" "2 * k - Suc 0 < 2 * n" using assms(2,3) by arith+
  have len: "length (coeff F (2 * k) 0) = N" "length (coeff F (2 * k - Suc 0) 0) = N"
    using col0 b by simp_all
  show ?thesis
    using assms(2-6) b len
    by (simp add: first_round_body_def u mat_get_def mat_set_def vec_get_def vsub_def vdiv_def
        bind_err_simps)
qed

lemma first_round_loop:
  assumes "n < 2147483648" "rows F = 2 * n" "cols F = 2 * n" "length z = 2 * n"
    and col: "\<forall>i<2 * n. length (coeff F i 0) = N \<and> (odd i \<longrightarrow> length (coeff F i 1) = N)"
  shows "case for_upto 1 n (first_round_body z) F of
           Inl e \<Rightarrow> e = DivisionByZero \<and> (\<exists>k. 1 \<le> k \<and> k < n \<and> z ! (2 * k) = z ! (2 * k - 1))
         | Inr F' \<Rightarrow> rows F' = 2 * n \<and> cols F' = 2 * n \<and>
             (\<forall>k. 1 \<le> k \<and> k < n \<longrightarrow> z ! (2 * k) \<noteq> z ! (2 * k - 1)) \<and>
             (\<forall>i<2 * n. length (coeff F' i 0) = N \<and> (1 \<le> i \<longrightarrow> length (coeff F' i 1) = N))"
proof (cases "1 \<le> n")
  case False
  then show ?thesis using assms by (simp add: for_upto_stop)
next
  case True
  let ?I = "\<lambda>m (G :: 'a Mat). rows G = 2 * n \<and> cols G = 2 * n \<and>
              (\<forall>k. 1 \<le> k \<and> k < m \<longrightarrow> z ! (2 * k) \<noteq> z ! (2 * k - 1)) \<and>
              (\<forall>i<2 * n. length (coeff G i 0) = N \<and>
                 (odd i \<or> (1 \<le> i \<and> i < 2 * m) \<longrightarrow> length (coeff G i 1) = N))"
  let ?E = "\<lambda>e. e = DivisionByZero \<and> (\<exists>k. 1 \<le> k \<and> k < n \<and> z ! (2 * k) = z ! (2 * k - 1))"
  have "case for_upto 1 n (first_round_body z) F of Inl e \<Rightarrow> ?E e | Inr F' \<Rightarrow> ?I n F'"
  proof (rule for_upto_rule[where I = ?I and E = ?E])
    show "?I 1 F"
    proof (intro conjI allI impI)
      fix i assume "i < 2 * n" "odd i \<or> 1 \<le> i \<and> i < 2 * 1"
      then have "odd i" by presburger
      with col \<open>i < 2 * n\<close> show "length (coeff F i 1) = N" by simp
    qed (use assms col in auto)
    show "1 \<le> n" by (rule True)
    fix k and G :: "'a Mat"
    assume k: "1 \<le> k" "k < n" and I: "?I k G"
    then have G: "rows G = 2 * n" "cols G = 2 * n" and col0: "\<forall>i<2 * n. length (coeff G i 0) = N"
      by simp_all
    show "case first_round_body z k G of Inl e \<Rightarrow> ?E e | Inr G' \<Rightarrow> ?I (Suc k) G'"
    proof (cases "first_round_body z k G")
      case (Inl e)
      with first_round_step[OF assms(1) k G assms(4) col0] k show ?thesis by auto
    next
      case (Inr G')
      with first_round_step[OF assms(1) k G assms(4) col0]
      have G': "rows G' = 2 * n" "cols G' = 2 * n" "z ! (2 * k) \<noteq> z ! (2 * k - 1)"
        "length (coeff G' (2 * k) 1) = N"
        and frame: "\<And>i j. (i, j) \<noteq> (2 * k, 1) \<Longrightarrow> coeff G' i j = coeff G i j"
        by simp_all
      have "\<forall>j. 1 \<le> j \<and> j < Suc k \<longrightarrow> z ! (2 * j) \<noteq> z ! (2 * j - 1)"
        using I G'(3) by (auto simp: less_Suc_eq)
      moreover have "length (coeff G' i 0) = N" if "i < 2 * n" for i
        using frame[of i 0] col0 that by simp
      moreover have "length (coeff G' i 1) = N"
        if "i < 2 * n" "odd i \<or> (1 \<le> i \<and> i < 2 * Suc k)" for i
      proof (cases "i = 2 * k")
        case True
        then show ?thesis using G'(4) by simp
      next
        case False
        with that have "odd i \<or> (1 \<le> i \<and> i < 2 * k)" by presburger
        with I that(1) have "length (coeff G i 1) = N" by blast
        with frame[of i 1] False show ?thesis by simp
      qed
      ultimately show ?thesis using Inr G'(1,2) by simp
    qed
  qed
  moreover have "odd i \<or> (1 \<le> i \<and> i < 2 * n)" if "i < 2 * n" "1 \<le> i" for i
    using that by simp
  ultimately show ?thesis by (auto split: sum.splits)
qed


lemma fill_step:
  assumes "n < 2147483648" "2 \<le> j" "j \<le> i" "i < 2 * n" "rows F = 2 * n" "cols F = 2 * n"
    "length z = 2 * n"
    and len: "length (coeff F i (j - 1)) = N" "length (coeff F (i - 1) (j - 1)) = N"
  shows "case fill_body z i j F of
           Inl e \<Rightarrow> e = DivisionByZero \<and> z ! i = z ! (i - j)
         | Inr F' \<Rightarrow> rows F' = 2 * n \<and> cols F' = 2 * n \<and> z ! i \<noteq> z ! (i - j) \<and>
             length (coeff F' i j) = N \<and>
             (\<forall>a b. (a, b) \<noteq> (i, j) \<longrightarrow> coeff F' a b = coeff F a b)"
proof -
  have u: "u32 (int j - 1) = j - 1" "u32 (int i - 1) = i - 1" "u32 (int i - int j) = i - j"
    using assms(1-4) by (simp_all add: u32_id nat_diff_distrib)
  have b: "i - j < 2 * n" "i - Suc 0 < 2 * n" "j - Suc 0 < 2 * n" "j < 2 * n"
    using assms(2-4) by arith+
  show ?thesis
    using assms(4-7) b len
    by (simp add: fill_body_def u mat_get_def mat_set_def vec_get_def vsub_def vdiv_def
        bind_err_simps)
qed

lemma fill_row_loop:
  assumes "n < 2147483648" "2 \<le> i" "i < 2 * n" "rows F = 2 * n" "cols F = 2 * n"
    "length z = 2 * n"
    and above: "\<forall>b. 1 \<le> b \<and> b \<le> i - 1 \<longrightarrow> length (coeff F (i - 1) b) = N"
    and first: "length (coeff F i 1) = N"
  shows "case fill_row z i F of
           Inl e \<Rightarrow> e = DivisionByZero \<and> (\<exists>j. 2 \<le> j \<and> j \<le> i \<and> z ! i = z ! (i - j))
         | Inr F' \<Rightarrow> rows F' = 2 * n \<and> cols F' = 2 * n \<and>
             (\<forall>j. 2 \<le> j \<and> j \<le> i \<longrightarrow> z ! i \<noteq> z ! (i - j)) \<and>
             (\<forall>b. 1 \<le> b \<and> b \<le> i \<longrightarrow> length (coeff F' i b) = N) \<and>
             (\<forall>a b. a \<noteq> i \<or> b < 2 \<longrightarrow> coeff F' a b = coeff F a b)"
proof -
  let ?I = "\<lambda>m (G :: 'a Mat). rows G = 2 * n \<and> cols G = 2 * n \<and>
              (\<forall>j. 2 \<le> j \<and> j < m \<longrightarrow> z ! i \<noteq> z ! (i - j)) \<and>
              (\<forall>b. 1 \<le> b \<and> b < m \<longrightarrow> length (coeff G i b) = N) \<and>
              (\<forall>a b. a \<noteq> i \<or> b < 2 \<longrightarrow> coeff G a b = coeff F a b)"
  let ?E = "\<lambda>e. e = DivisionByZero \<and> (\<exists>j. 2 \<le> j \<and> j \<le> i \<and> z ! i = z ! (i - j))"
  have "case for_upto 2 (Suc i) (fill_body z i) F of Inl e \<Rightarrow> ?E e | Inr G \<Rightarrow> ?I (Suc i) G"
  proof (rule for_upto_rule[where I = ?I and E = ?E])
    show "?I 2 F"
    proof (intro conjI allI impI)
      fix b :: nat assume "1 \<le> b \<and> b < 2"
      then have "b = 1" by simp
      then show "length (coeff F i b) = N" using first by simp
    qed (use assms in auto)
    show "2 \<le> Suc i" using assms(2) by simp
    fix j and G :: "'a Mat"
    assume j: "2 \<le> j" "j < Suc i" and I: "?I j G"
    then have j': "j \<le> i" by simp
    from I have G: "rows G = 2 * n" "cols G = 2 * n" by simp_all
    have l1: "length (coeff G i (j - 1)) = N" using I j by simp
    have "coeff G (i - 1) (j - 1) = coeff F (i - 1) (j - 1)" using I assms(2) by simp
    moreover have "1 \<le> j - 1 \<and> j - 1 \<le> i - 1" using j j' by arith
    ultimately have l2: "length (coeff G (i - 1) (j - 1)) = N" using above by metis
    show "case fill_body z i j G of Inl e \<Rightarrow> ?E e | Inr G' \<Rightarrow> ?I (Suc j) G'"
    proof (cases "fill_body z i j G")
      case (Inl e)
      with fill_step[OF assms(1) j(1) j' assms(3) G assms(6) l1 l2] j j' show ?thesis by auto
    next
      case (Inr G')
      with fill_step[OF assms(1) j(1) j' assms(3) G assms(6) l1 l2]
      have G': "rows G' = 2 * n" "cols G' = 2 * n" "z ! i \<noteq> z ! (i - j)"
        "length (coeff G' i j) = N"
        and frame: "\<And>a b. (a, b) \<noteq> (i, j) \<Longrightarrow> coeff G' a b = coeff G a b"
        by simp_all
      have "\<forall>j'. 2 \<le> j' \<and> j' < Suc j \<longrightarrow> z ! i \<noteq> z ! (i - j')"
        using I G'(3) by (auto simp: less_Suc_eq)
      moreover have "length (coeff G' i b) = N" if "1 \<le> b \<and> b < Suc j" for b
      proof (cases "b = j")
        case True
        then show ?thesis using G'(4) by simp
      next
        case False
        with that I have "length (coeff G i b) = N" by simp
        with frame[of i b] False show ?thesis by simp
      qed
      moreover have "coeff G' a b = coeff F a b" if "a \<noteq> i \<or> b < 2" for a b
      proof -
        from that j(1) have "(a, b) \<noteq> (i, j)" by auto
        from frame[OF this] I that show ?thesis by simp
      qed
      ultimately show ?thesis using Inr G'(1,2) by simp
    qed
  qed
  then show ?thesis
    by (auto simp: fill_row_def less_Suc_eq_le split: sum.splits)
qed

lemma fill_loop:
  assumes "n < 2147483648" "rows F = 2 * n" "cols F = 2 * n" "length z = 2 * n"
    and col: "\<forall>i<2 * n. length (coeff F i 0) = N \<and> (1 \<le> i \<longrightarrow> length (coeff F i 1) = N)"
  shows "case for_upto 2 (2 * n) (fill_row z) F of
           Inl e \<Rightarrow> e = DivisionByZero \<and>
             (\<exists>i j. 2 \<le> j \<and> j \<le> i \<and> i < 2 * n \<and> z ! i = z ! (i - j))
         | Inr F' \<Rightarrow> rows F' = 2 * n \<and> cols F' = 2 * n \<and>
             (\<forall>i j. 2 \<le> j \<and> j \<le> i \<and> i < 2 * n \<longrightarrow> z ! i \<noteq> z ! (i - j)) \<and>
             (\<forall>i<2 * n. length (coeff F' i 0) = N \<and>
                (\<forall>b. 1 \<le> b \<and> b \<le> i \<longrightarrow> length (coeff F' i b) = N))"
proof -
  let ?I = "\<lambda>m (G :: 'a Mat). rows G = 2 * n \<and> cols G = 2 * n \<and>
              (\<forall>i j. 2 \<le> j \<and> j \<le> i \<and> i < m \<longrightarrow> z ! i \<noteq> z ! (i - j)) \<and>
              (\<forall>i<2 * n. length (coeff G i 0) = N \<and> (1 \<le> i \<longrightarrow> length (coeff G i 1) = N)) \<and>
              (\<forall>i b. i < m \<and> i < 2 * n \<and> 1 \<le> b \<and> b \<le> i \<longrightarrow> length (coeff G i b) = N)"
  let ?E = "\<lambda>e. e = DivisionByZero \<and>
              (\<exists>i j. 2 \<le> j \<and> j \<le> i \<and> i < 2 * n \<and> z ! i = z ! (i - j))"
  have I2: "?I 2 F"
  proof (intro conjI allI impI)
    fix i b :: nat assume h: "i < 2 \<and> i < 2 * n \<and> 1 \<le> b \<and> b \<le> i"
    then have "i = 1" "b = 1" by simp_all
    with h col show "length (coeff F i b) = N" by simp
  qed (use assms col in auto)
  show ?thesis
  proof (cases "2 \<le> 2 * n")
    case False
    then have "for_upto 2 (2 * n) (fill_row z) F = Inr F" by (simp add: for_upto_stop)
    moreover have "?I (2 * n) F" using I2 False by auto
    ultimately show ?thesis by simp
  next
    case True
    have "case for_upto 2 (2 * n) (fill_row z) F of Inl e \<Rightarrow> ?E e | Inr F' \<Rightarrow> ?I (2 * n) F'"
    proof (rule for_upto_rule[where I = ?I and E = ?E])
      show "?I 2 F" by (rule I2)
      show "2 \<le> 2 * n" by (rule True)
      fix i and G :: "'a Mat"
      assume i: "2 \<le> i" "i < 2 * n" and I: "?I i G"
      then have G: "rows G = 2 * n" "cols G = 2 * n" by simp_all
      have above: "\<forall>b. 1 \<le> b \<and> b \<le> i - 1 \<longrightarrow> length (coeff G (i - 1) b) = N"
        using I i by simp
      have first: "length (coeff G i 1) = N" using I i by simp
      show "case fill_row z i G of Inl e \<Rightarrow> ?E e | Inr G' \<Rightarrow> ?I (Suc i) G'"
      proof (cases "fill_row z i G")
        case (Inl e)
        with fill_row_loop[OF assms(1) i G assms(4) above first] i show ?thesis by auto
      next
        case (Inr G')
        with fill_row_loop[OF assms(1) i G assms(4) above first]
        have G': "rows G' = 2 * n" "cols G' = 2 * n"
          and nz: "\<forall>j. 2 \<le> j \<and> j \<le> i \<longrightarrow> z ! i \<noteq> z ! (i - j)"
          and row: "\<forall>b. 1 \<le> b \<and> b \<le> i \<longrightarrow> length (coeff G' i b) = N"
          and frame: "\<And>a b. a \<noteq> i \<or> b < 2 \<Longrightarrow> coeff G' a b = coeff G a b"
          by simp_all
        have "\<forall>a j. 2 \<le> j \<and> j \<le> a \<and> a < Suc i \<longrightarrow> z ! a \<noteq> z ! (a - j)"
          using I nz by (auto simp: less_Suc_eq)
        moreover have "length (coeff G' a 0) = N \<and> (1 \<le> a \<longrightarrow> length (coeff G' a 1) = N)"
          if "a < 2 * n" for a
          using frame[of a 0] frame[of a 1] I that by simp
        moreover have "length (coeff G' a b) = N" if "a < Suc i \<and> a < 2 * n \<and> 1 \<le> b \<and> b \<le> a" for a b
        proof (cases "a = i")
          case True
          then show ?thesis using row that by simp
        next
          case False
          with that I have "length (coeff G a b) = N" by simp
          with frame[of a b] False show ?thesis by simp
        qed
        ultimately show ?thesis using Inr G' by simp
      qed
    qed
    then show ?thesis by (auto split: sum.splits)
  qed
qed

lemma horner_step:
  assumes "n < 2147483648" "1 \<le> k" "k < n" "rows F = 2 * n" "cols F = 2 * n" "length z = 2 * n"
    and diag: "\<forall>i. 1 \<le> i \<and> i < 2 * n \<longrightarrow> length (coeff F i i) = N"
    and R: "length R = N"
  shows "\<exists>R'. horner_body t F z k R = Inr R' \<and> length R' = N"
proof -
  have u: "u32 (2 * int k) = 2 * k" "u32 (2 * int k - 1) = 2 * k - 1" "u32 (int k - 1) = k - 1"
    using assms(1-3) by (simp_all add: u32_id nat_diff_distrib nat_mult_distrib)
  have b: "k < 2 * n" "2 * k < 2 * n" "k - Suc 0 < 2 * n" "2 * k - Suc 0 < 2 * n"
    using assms(2,3) by arith+
  have len: "length (coeff F (2 * k) (2 * k)) = N"
    "length (coeff F (2 * k - Suc 0) (2 * k - Suc 0)) = N"
    using diag b assms(2) by simp_all
  show ?thesis
    using assms(4-6) b len R
    by (simp add: horner_body_def u mat_get_def vec_get_def vadd_def vscale_def bind_err_simps)
qed


lemma horner_tail:
  assumes "1 \<le> n" "n < 2147483648" "rows F = 2 * n" "cols F = 2 * n" "length z = 2 * n"
    and tri: "\<forall>i<2 * n. length (coeff F i 0) = N \<and>
                (\<forall>b. 1 \<le> b \<and> b \<le> i \<longrightarrow> length (coeff F i b) = N)"
  shows "\<exists>r. bind_err (mat_get F (2 * n - 1) (2 * n - 1)) (\<lambda>Result0.
        bind_err (for_downto1 (n - 1) (horner_body t F z) Result0) (\<lambda>Result.
        bind_err (vec_get z 0) (\<lambda>t0.
        bind_err (mat_get F 0 0) (\<lambda>f0.
        vadd (vscale Result (t - t0)) f0)))) = Inr r"
proof -
  have diag: "\<forall>i. 1 \<le> i \<and> i < 2 * n \<longrightarrow> length (coeff F i i) = N"
    using tri by simp
  have top: "length (coeff F (2 * n - 1) (2 * n - 1)) = N"
    using diag assms(1) by simp
  have "\<exists>R. for_downto1 (n - 1) (horner_body t F z) (coeff F (2 * n - 1) (2 * n - 1)) = Inr R
          \<and> length R = N"
  proof (rule for_downto1_rule[where I = "\<lambda>R. length R = N"])
    show "length (coeff F (2 * n - 1) (2 * n - 1)) = N" by (rule top)
    fix k and R :: "'a list"
    assume "1 \<le> k" "k \<le> n - 1" "length R = N"
    then show "\<exists>R'. horner_body t F z k R = Inr R' \<and> length R' = N"
      using horner_step[OF assms(2) _ _ assms(3-5) diag, of k R t] by simp
  qed
  then obtain R where R: "for_downto1 (n - 1) (horner_body t F z)
      (coeff F (2 * n - 1) (2 * n - 1)) = Inr R" "length R = N"
    by blast
  have "length (coeff F 0 0) = N" using tri assms(1) by simp
  then show ?thesis
    using R assms(1,3-5)
    by (simp add: mat_get_def vec_get_def vadd_def vscale_def bind_err_simps)
qed

lemma HermiteInterpolateAndSolve_outcome:
  fixes times' :: "'a::field list"
  assumes "1 \<le> n" "n < 2147483648" "n \<le> length times'" "n \<le> length samples"
    "n \<le> length derivatives"
    and dimS: "\<forall>v\<in>set (take n (rev samples)). length v = N"
    and dimD: "\<forall>v\<in>set (take n (rev derivatives)). length v = N"
  shows "if distinct (take n (rev times'))
         then (\<exists>r. HermiteInterpolateAndSolve t n times' samples derivatives = Inr r)
         else HermiteInterpolateAndSolve t n times' samples derivatives = Inl DivisionByZero"
proof -
  define X where "X = take n (rev times')"
  have u: "u32 (2 * int n) = 2 * n" "u32 (2 * int n - 1) = 2 * n - 1" "u32 (int n - 1) = n - 1"
    using assms(1,2) by (simp_all add: u32_id nat_diff_distrib nat_mult_distrib)
  from seed_loop[OF assms(2-5) dimS dimD] obtain F0 z where
    seed: "for_upto 0 n (seed_body times' samples derivatives)
            (new_Mat (2 * n) (2 * n), new_Vec (2 * n)) = Inr (F0, z)"
    and F0: "rows F0 = 2 * n" "cols F0 = 2 * n" and z: "length z = 2 * n"
    and zX: "\<forall>i<2 * n. z ! i = rev times' ! (i div 2)"
    and col: "\<forall>i<2 * n. length (coeff F0 i 0) = N \<and> (odd i \<longrightarrow> length (coeff F0 i 1) = N)"
    unfolding u by blast
  have zX': "z ! i = X ! (i div 2)" if "i < 2 * n" for i
    using zX that by (simp add: X_def)
  have lenX: "length X = n" using assms(3) by (simp add: X_def)
  have den1: "z ! (2 * k) = z ! (2 * k - 1) \<longleftrightarrow> X ! k = X ! (k - 1)" if "1 \<le> k" "k < n" for k
  proof -
    have "(2 * k - 1) div 2 = k - 1" using that by arith
    then show ?thesis using that zX'[of "2 * k"] zX'[of "2 * k - 1"] by simp
  qed
  have A: "z ! i \<noteq> z ! (i - j)" if d: "distinct X" and "2 \<le> j" "j \<le> i" "i < 2 * n" for i j
  proof -
    have "(i - j) div 2 \<noteq> i div 2" "i div 2 < n" "(i - j) div 2 < n" using that by arith+
    then have "X ! (i div 2) \<noteq> X ! ((i - j) div 2)"
      using d lenX by (simp add: nth_eq_iff_index_eq)
    then show ?thesis using zX'[of i] zX'[of "i - j"] that by simp
  qed
  have A1: "z ! (2 * k) \<noteq> z ! (2 * k - 1)" if d: "distinct X" and "1 \<le> k" "k < n" for k
  proof -
    have "X ! k \<noteq> X ! (k - 1)"
      using d lenX that by (simp add: nth_eq_iff_index_eq)
    then show ?thesis using den1 that by simp
  qed
  have B: "\<exists>i j. 2 \<le> j \<and> j \<le> i \<and> i < 2 * n \<and> z ! i = z ! (i - j)" if nd: "\<not> distinct X"
  proof -
    from nd obtain a b where ab: "a < b" "b < n" "X ! a = X ! b"
      unfolding distinct_conv_nth lenX by (metis linorder_neqE_nat)
    have "2 * b - (2 * b - 2 * a) = 2 * a" using ab by arith
    then have "z ! (2 * b) = z ! (2 * b - (2 * b - 2 * a))"
      using ab zX'[of "2 * b"] zX'[of "2 * a"] by simp
    moreover have "2 \<le> 2 * b - 2 * a" "2 * b - 2 * a \<le> 2 * b" "2 * b < 2 * n"
      using ab by arith+
    ultimately show ?thesis by blast
  qed
  note H = HermiteInterpolateAndSolve_def[of t n times' samples derivatives, unfolded u]
  have "if distinct X
        then (\<exists>r. HermiteInterpolateAndSolve t n times' samples derivatives = Inr r)
        else HermiteInterpolateAndSolve t n times' samples derivatives = Inl DivisionByZero"
  proof (cases "for_upto 1 n (first_round_body z) F0")
    case (Inl e)
    with first_round_loop[OF assms(2) F0 z col] obtain k where
      e: "e = DivisionByZero" and k: "1 \<le> k" "k < n" "z ! (2 * k) = z ! (2 * k - 1)" by auto
    from k A1 have "\<not> distinct X" by blast
    then show ?thesis
      using assms(3-5) seed Inl e by (simp add: H bind_err_simps)
  next
    case (Inr F1)
    with first_round_loop[OF assms(2) F0 z col] have F1: "rows F1 = 2 * n" "cols F1 = 2 * n"
      and col1: "\<forall>i<2 * n. length (coeff F1 i 0) = N \<and> (1 \<le> i \<longrightarrow> length (coeff F1 i 1) = N)"
      by auto
    show ?thesis
    proof (cases "for_upto 2 (2 * n) (fill_row z) F1")
      case (Inl e)
      with fill_loop[OF assms(2) F1 z col1] obtain i j where
        e: "e = DivisionByZero" and ij: "2 \<le> j" "j \<le> i" "i < 2 * n" "z ! i = z ! (i - j)"
        by auto
      from ij A have "\<not> distinct X" by blast
      then show ?thesis
        using assms(3-5) seed \<open>for_upto 1 n (first_round_body z) F0 = Inr F1\<close> Inl e
        by (simp add: H bind_err_simps)
    next
      case (Inr F2)
      with fill_loop[OF assms(2) F1 z col1] have F2: "rows F2 = 2 * n" "cols F2 = 2 * n"
        and nz: "\<forall>i j. 2 \<le> j \<and> j \<le> i \<and> i < 2 * n \<longrightarrow> z ! i \<noteq> z ! (i - j)"
        and tri: "\<forall>i<2 * n. length (coeff F2 i 0) = N \<and>
                    (\<forall>b. 1 \<le> b \<and> b \<le> i \<longrightarrow> length (coeff F2 i b) = N)"
        by auto
      from nz B have "distinct X" by blast
      moreover from horner_tail[OF assms(1,2) F2 z tri, of t]
      obtain r where "bind_err (mat_get F2 (2 * n - 1) (2 * n - 1)) (\<lambda>Result0.
        bind_err (for_downto1 (n - 1) (horner_body t F2 z) Result0) (\<lambda>Result.
        bind_err (vec_get z 0) (\<lambda>t0.
        bind_err (mat_get F2 0 0) (\<lambda>f0.
        vadd (vscale Result (t - t0)) f0)))) = Inr r" by blast
      ultimately show ?thesis
        using assms(3-5) seed \<open>for_upto 1 n (first_round_body z) F0 = Inr F1\<close> Inr
        by (simp add: H bind_err_simps)
    qed
  qed
  then show ?thesis by (simp add: X_def)
qed

text \<open>
  At \<open>2^31\<close> samples the product \<^verbatim>\<open>2*num_sample_points\<close> wraps to \<open>0\<close>: the table is
  empty and the first write of the first loop is outside it.
\<close>

lemma HermiteInterpolateAndSolve_wraps:
  assumes "2147483648 \<le> length times'" "2147483648 \<le> length samples"
    "2147483648 \<le> length derivatives"
  shows "HermiteInterpolateAndSolve t 2147483648 times' samples derivatives = Inl IndexOutOfBounds"
proof -
  have "length samples - Suc 0 < length samples" using assms(2) by arith
  then show ?thesis
    using assms
    by (simp add: HermiteInterpolateAndSolve_def for_upto_step seed_body_def u32_def deque_at_def
        mat_set_def new_Mat_def bind_err_simps)
qed

lemma map2_add_scaled:
  fixes p :: "'a::field list"
  shows "map2 (+) (map g d) p = map2 (\<lambda>pi di. pi + g di) p d"
proof (induction d arbitrary: p)
  case Nil
  then show ?case by simp
next
  case (Cons a d)
  then show ?case by (cases p) (simp_all add: add.commute)
qed

text \<open>
  The table of the cubic \<open>t\<^sup>3\<close>, sampled with its derivative \<open>3t\<^sup>2\<close> at the times \<open>1\<close> and
  \<open>0\<close> (the most recent): the nodes are \<open>0, 0, 1, 1\<close> and the diagonal is \<open>0, 0, 1, 1\<close>,
  the coefficients of the Newton form \<open>t\<^sup>3 = 0 + 0 \<cdot> t + 1 \<cdot> t\<^sup>2 + 1 \<cdot> t\<^sup>2 \<cdot> (t - 1)\<close>.
\<close>

lemma cubic_table_diagonal:
  "bind_err (for_upto 0 2 (seed_body [1, 0] [[1], [0]] [[3], [0]])
               (new_Mat 4 4, new_Vec 4)) (\<lambda>(F0, z).
   bind_err (for_upto 1 2 (first_round_body z) F0) (\<lambda>F1.
   bind_err (for_upto 2 4 (fill_row z) F1) (\<lambda>F.
   Inr (z, map (\<lambda>i. coeff F i i) [0, 1, 2, 3]))))
   = Inr ([0, 0, 1, 1 :: complex], [[0], [0], [1], [1]])"
  by (simp add: eval_defs numeral_eq_Suc)

subsection \<open>Results\<close>

text \<open>
  C1. From \<open>n\<close> exact samples of a polynomial of degree \<open>2n - 1\<close> at \<open>n\<close> distinct times the
  function is to return the value of the polynomial at the target time. For \<open>n = 2\<close> it
  does not: from the samples of the cubic \<open>t\<^sup>3\<close> at the times \<open>1\<close> and \<open>0\<close> it returns \<open>12\<close>
  at the target time \<open>2\<close>, where the cubic is \<open>8\<close>. The table is the right one
  (\<open>cubic_table_diagonal\<close>); the nested evaluation pairs the diagonal entries \<open>2ii\<close> and
  \<open>2ii - 1\<close> with \<^verbatim>\<open>time_differences(ii)\<close> and \<^verbatim>\<open>time_differences(ii-1)\<close>, slots
  of the doubled time vector, where their nodes are in the slots \<open>2ii\<close> and \<open>2ii - 1\<close>:
  it evaluates \<open>t\<^sup>2 + t\<^sup>3\<close>.
\<close>

theorem HermiteInterpolateAndSolve_cubic:
  "(let p = (\<lambda>t::complex. t ^ 3); p' = (\<lambda>t::complex. 3 * t\<^sup>2); ts = [1, 0]
    in HermiteInterpolateAndSolve 2 2 ts (map (\<lambda>t. [p t]) ts) (map (\<lambda>t. [p' t]) ts) = Inr [12]
       \<and> p 2 = 8)"
  by (simp add: eval_defs numeral_eq_Suc)

text \<open>
  C6. With one sample point requested the function returns \<open>p + d \<cdot> (target_time - t0)\<close>,
  coordinate by coordinate, where \<open>t0\<close>, \<open>p\<close> and \<open>d\<close> are the time, the position and the
  derivative of the most recent sample, a point and its derivative having one dimension.
\<close>

theorem HermiteInterpolateAndSolve_one_sample:
  "length p = length d \<Longrightarrow>
   HermiteInterpolateAndSolve target_time 1 (ts @ [t0]) (ps @ [p]) (ds @ [d])
     = Inr (map2 (\<lambda>p_i d_i. p_i + d_i * (target_time - t0)) p d)"
  by (simp add: eval_defs numeral_2_eq_2 map2_add_scaled)

theorem HermiteInterpolateAndSolve_one_sample_witness:
  "length [1, 2 :: complex] = length [3, 4 :: complex]
   \<and> HermiteInterpolateAndSolve (7::complex) 1 [9, 5] [[0, 0], [1, 2]] [[0, 0], [3, 4]] = Inr [7, 10]"
  using HermiteInterpolateAndSolve_one_sample [of "[1, 2 :: complex]" "[3, 4]" 7 "[9]" 5 "[[0, 0]]" "[[0, 0]]"]
  by simp

text \<open>
  C7. From the three samples of \<open>f t = t\<^sup>2 + 1\<close> and its derivative \<open>2t\<close> at the times
  \<open>0.1\<close>, \<open>0.01\<close> and \<open>0.001\<close>, the function returns at the target time \<open>0\<close> the value \<open>1\<close>
  itself in exact arithmetic, which is within \<open>10\<^sup>-\<^sup>6\<close> of \<open>1\<close>; none of the three positions
  is.
\<close>

theorem HermiteInterpolateAndSolve_quadratic:
  "(let f = (\<lambda>t::complex. t\<^sup>2 + 1); f' = (\<lambda>t::complex. 2 * t); ts = [1/10, 1/100, 1/1000];
       out = HermiteInterpolateAndSolve 0 3 ts (map (\<lambda>t. [f t]) ts) (map (\<lambda>t. [f' t]) ts)
    in out = Inr [1]
       \<and> (\<exists>r. out = Inr [r] \<and> cmod (r - 1) \<le> 1 / 1000000)
       \<and> list_all (\<lambda>t. f t \<noteq> 1) ts)"
  by (simp add: eval_defs numeral_eq_Suc power2_eq_square)

text \<open>
  C8. For a number of sample points from \<open>1\<close> up to \<open>2^31 - 1\<close>: when each of the three
  containers holds at least that many entries, and the positions and derivatives of the
  window all have one dimension, no assertion fails, no container or table access is out
  of bounds and no two vectors of different dimensions are added. For any number of sample
  points: when one of the containers holds fewer entries, an assertion fails and that is
  the outcome of the call.
\<close>

theorem HermiteInterpolateAndSolve_contract:
  "(1 \<le> n \<and> n < 2147483648 \<and> n \<le> length times' \<and> n \<le> length samples \<and> n \<le> length derivatives
      \<and> (\<forall>v\<in>set (take n (rev samples)) \<union> set (take n (rev derivatives)). length v = N)
      \<longrightarrow> HermiteInterpolateAndSolve t n times' samples derivatives \<noteq> Inl IndexOutOfBounds
        \<and> HermiteInterpolateAndSolve t n times' samples derivatives \<noteq> Inl DimensionMismatch
        \<and> (\<forall>m. HermiteInterpolateAndSolve t n times' samples derivatives \<noteq> Inl (AssertionFailed m)))
   \<and> (length times' < n \<or> length samples < n \<or> length derivatives < n
      \<longrightarrow> (\<exists>m. HermiteInterpolateAndSolve t n times' samples derivatives = Inl (AssertionFailed m)))"
proof (intro conjI impI)
  assume "1 \<le> n \<and> n < 2147483648 \<and> n \<le> length times' \<and> n \<le> length samples
    \<and> n \<le> length derivatives
    \<and> (\<forall>v\<in>set (take n (rev samples)) \<union> set (take n (rev derivatives)). length v = N)"
  then have "if distinct (take n (rev times'))
         then (\<exists>r. HermiteInterpolateAndSolve t n times' samples derivatives = Inr r)
         else HermiteInterpolateAndSolve t n times' samples derivatives = Inl DivisionByZero"
    by (intro HermiteInterpolateAndSolve_outcome[where N = N]) auto
  then show "HermiteInterpolateAndSolve t n times' samples derivatives \<noteq> Inl IndexOutOfBounds"
    and "HermiteInterpolateAndSolve t n times' samples derivatives \<noteq> Inl DimensionMismatch"
    and "\<forall>m. HermiteInterpolateAndSolve t n times' samples derivatives \<noteq> Inl (AssertionFailed m)"
    by (auto split: if_splits)
next
  assume "length times' < n \<or> length samples < n \<or> length derivatives < n"
  then show "\<exists>m. HermiteInterpolateAndSolve t n times' samples derivatives = Inl (AssertionFailed m)"
    by (auto simp: HermiteInterpolateAndSolve_def)
qed

theorem HermiteInterpolateAndSolve_contract_witness:
  "HermiteInterpolateAndSolve (5::complex) 2 [3, 2, 1] [[9], [4], [1]] [[6], [4], [2]] \<noteq> Inl IndexOutOfBounds
   \<and> HermiteInterpolateAndSolve (5::complex) 2 [3, 2, 1] [[9], [4], [1]] [[6], [4], [2]]
        \<noteq> Inl DimensionMismatch
   \<and> (\<forall>m. HermiteInterpolateAndSolve (5::complex) 2 [3, 2, 1] [[9], [4], [1]] [[6], [4], [2]]
           \<noteq> Inl (AssertionFailed m))
   \<and> (\<exists>m. HermiteInterpolateAndSolve (5::complex) 2 [1] [[1]] [[2]] = Inl (AssertionFailed m))"
  using HermiteInterpolateAndSolve_contract [of 2 "[3, 2, 1] :: complex list" "[[9], [4], [1]]" "[[6], [4], [2]]" 1 5]
    HermiteInterpolateAndSolve_contract [of 2 "[1] :: complex list" "[[1]]" "[[2]]" 1 5]
  by simp

text \<open>
  C8 outside these bounds: the three assertions hold and the call fails all the same. With
  no sample point requested the table is empty and \<^verbatim>\<open>2*num_sample_points - 1\<close>
  wraps to \<open>4294967295\<close>, an index outside it; with \<open>2^31\<close> sample points requested
  \<^verbatim>\<open>2*num_sample_points\<close> wraps to \<open>0\<close> and the table is empty again; with a position
  of two coordinates and a derivative of one, the last sum adds vectors of different
  dimensions.
\<close>

theorem HermiteInterpolateAndSolve_out_of_bounds:
  "0 \<le> length ([] :: complex list) \<and> 0 \<le> length ([] :: complex Vec list)
   \<and> HermiteInterpolateAndSolve (0::complex) 0 [] [] [] = Inl IndexOutOfBounds
   \<and> 2147483648 \<le> length (replicate 2147483648 (0::complex))
   \<and> 2147483648 \<le> length (replicate 2147483648 [0::complex])
   \<and> HermiteInterpolateAndSolve (0::complex) 2147483648 (replicate 2147483648 0)
         (replicate 2147483648 [0]) (replicate 2147483648 [0]) = Inl IndexOutOfBounds
   \<and> 1 \<le> length [0::complex] \<and> 1 \<le> length [[1, 2::complex]] \<and> 1 \<le> length [[1::complex]]
   \<and> HermiteInterpolateAndSolve (0::complex) 1 [0] [[1, 2]] [[1]] = Inl DimensionMismatch"
proof -
  have "HermiteInterpolateAndSolve (0::complex) 0 [] [] [] = Inl IndexOutOfBounds"
    by (simp add: eval_defs)
  moreover have "HermiteInterpolateAndSolve (0::complex) 2147483648 (replicate 2147483648 0)
      (replicate 2147483648 [0]) (replicate 2147483648 [0]) = Inl IndexOutOfBounds"
    by (rule HermiteInterpolateAndSolve_wraps) simp_all
  moreover have "HermiteInterpolateAndSolve (0::complex) 1 [0] [[1, 2]] [[1]] = Inl DimensionMismatch"
    by (simp add: eval_defs numeral_2_eq_2)
  ultimately show ?thesis by simp
qed

text \<open>
  C10. Under the contract of C8 the function divides by zero exactly when two of the
  \<open>num_sample_points\<close> most recent times are equal: the times have to be pairwise
  distinct, and when they are, no divisor is zero although every node is in the table
  twice.
\<close>

theorem HermiteInterpolateAndSolve_division:
  assumes "1 \<le> n" "n < 2147483648" "n \<le> length times'" "n \<le> length samples"
    "n \<le> length derivatives"
    "\<forall>v\<in>set (take n (rev samples)) \<union> set (take n (rev derivatives)). length v = N"
  shows "HermiteInterpolateAndSolve t n times' samples derivatives = Inl DivisionByZero
           \<longleftrightarrow> \<not> distinct (take n (rev times'))"
proof -
  have "if distinct (take n (rev times'))
         then (\<exists>r. HermiteInterpolateAndSolve t n times' samples derivatives = Inr r)
         else HermiteInterpolateAndSolve t n times' samples derivatives = Inl DivisionByZero"
    using assms by (intro HermiteInterpolateAndSolve_outcome[where N = N]) auto
  then show ?thesis by (auto split: if_splits)
qed

theorem HermiteInterpolateAndSolve_division_witness:
  "HermiteInterpolateAndSolve (5::complex) 2 [1, 2, 2] [[1], [4], [4]] [[2], [4], [4]] = Inl DivisionByZero
   \<and> HermiteInterpolateAndSolve (5::complex) 2 [2, 2, 1] [[4], [4], [1]] [[4], [4], [2]] \<noteq> Inl DivisionByZero"
  using HermiteInterpolateAndSolve_division [of 2 "[1, 2, 2] :: complex list" "[[1], [4], [4]]" "[[2], [4], [4]]" 1 5]
    HermiteInterpolateAndSolve_division [of 2 "[2, 2, 1] :: complex list" "[[4], [4], [1]]" "[[4], [4], [2]]" 1 5]
  by simp

end
